theory Spec2Isabelle
  imports Complex_Main "HOL-Library.Word"
begin

section \<open>Module constants\<close>

text \<open>
  \<^verbatim>\<open>
  max_iter = 750
  color_reference = 100
  TILE_SIZE = 256
  \<close>
\<close>

definition max_iter :: int where
  "max_iter = 750"

definition color_reference :: int where
  "color_reference = 100"

definition TILE_SIZE :: int where
  "TILE_SIZE = 256"

section \<open>Chunk grid\<close>

text \<open>
  The module-level chunk grid of \<^verbatim>\<open>mandelbrot.py\<close>:
  \<^verbatim>\<open>
  ncol = 64
  fx = nx//ncol
  nc = fx + (fx*ncol < nx)
  bx = np.arange(nc, dtype=int)*ncol
  ex = np.clip((np.arange(nc, dtype=int)+1)*ncol, 0, nx)
  \<close>
  Python integers are \<open>int\<close>; \<open>//\<close> is floor division, which is \<open>div\<close> on \<open>int\<close>;
  the comparison \<open>fx*ncol < nx\<close> is a bool added as 0 or 1.  The image width \<open>nx\<close>
  is a parameter of every definition that reads it.
\<close>

definition ncol :: int where
  "ncol = 64"

definition fx :: "int \<Rightarrow> int" where
  "fx nx = nx div ncol"

definition nc :: "int \<Rightarrow> int" where
  "nc nx = fx nx + (if fx nx * ncol < nx then 1 else 0)"

definition arange :: "int \<Rightarrow> int list" where
  "arange n = [0 .. n - 1]"

definition clip :: "'a::linorder \<Rightarrow> 'a \<Rightarrow> 'a \<Rightarrow> 'a" where
  "clip v lo hi = min (max v lo) hi"

definition bx :: "int \<Rightarrow> int list" where
  "bx nx = map (\<lambda>k. k * ncol) (arange (nc nx))"

definition ex :: "int \<Rightarrow> int list" where
  "ex nx = map (\<lambda>k. clip ((k + 1) * ncol) 0 nx) (arange (nc nx))"

text \<open>
  \<^verbatim>\<open>
  def feeder(input, strip_y_start, strip_y_end):
      for i in range(nc):
          xx, yy = np.meshgrid(x[bx[i]:ex[i]], y[strip_y_start:strip_y_end])
          args = (xx, yy)
          input.put((i, args), True)
  \<close>
  The coordinate grids are represented by the index ranges they are cut from: a work item
  is the chunk index, the column range \<open>(bx[i], ex[i])\<close> and the strip's row range.
\<close>

type_synonym work_item = "nat \<times> (int \<times> int) \<times> (int \<times> int)"

definition feeder :: "int \<Rightarrow> int \<Rightarrow> int \<Rightarrow> work_item list" where
  "feeder nx strip_y_start strip_y_end =
     map (\<lambda>i. (i, (bx nx ! i, ex nx ! i), (strip_y_start, strip_y_end)))
       [0 ..< nat (nc nx)]"

section \<open>Pyramid level dimensions\<close>

text \<open>
  \<^verbatim>\<open>
  def get_level_dimensions(width, height, level, max_level):
      scale = 2 ** (max_level - level)
      level_width = max(1, int(math.ceil(width / scale)))
      level_height = max(1, int(math.ceil(height / scale)))
      return level_width, level_height
  \<close>
  \<open>width / scale\<close> is Python's true division; it is taken as the exact quotient (the
  divisor is a power of two, so the floating-point quotient is exact for every width below
  \<open>2 ^ 53\<close>).  A negative exponent makes \<open>2 ** d\<close> the fraction \<open>1 / 2 ^ (-d)\<close>, which
  is what \<open>powi\<close> computes.
\<close>

definition get_level_dimensions :: "int \<Rightarrow> int \<Rightarrow> int \<Rightarrow> int \<Rightarrow> int \<times> int" where
  "get_level_dimensions width height level max_level =
     (let scale = (2::real) powi (max_level - level);
          level_width = max 1 \<lceil>of_int width / scale\<rceil>;
          level_height = max 1 \<lceil>of_int height / scale\<rceil>
      in (level_width, level_height))"

section \<open>Worker: normalisation and colour lookup\<close>

text \<open>
  \<^verbatim>\<open>
  color_max = float(color_reference)

  def worker(input, output, lut_shared, color_max_shared):
      lut = np.frombuffer(lut_shared, dtype=np.uint8).reshape(256, 3)
      color_max = color_max_shared.value
      for i, args in iter(input.get, 'STOP'):
          coldata = mandelbrot.calc_val(*args)
          chunk_normalized = np.clip((coldata / color_max) * 255, 0, 255).astype(np.uint8)
          rgb_chunk = lut[chunk_normalized]
          output.put((i, rgb_chunk))
  \<close>
  The numpy operations are elementwise, so an array is the list of its values and
  \<open>chunk_normalized\<close> is given for one value.  Field values are real numbers (the
  rounding of the two floating-point operations is not represented); \<open>astype(np.uint8)\<close>
  of a value in \<open>[0, 255]\<close> drops the fraction and gives a byte.  The kernel
  \<open>mandelbrot.calc_val\<close> is a compiled extension and a parameter here.
\<close>

type_synonym rgb = "8 word \<times> 8 word \<times> 8 word"

definition color_max :: real where
  "color_max = of_int color_reference"

definition chunk_normalized :: "real \<Rightarrow> real \<Rightarrow> 8 word" where
  "chunk_normalized cmax v = word_of_int \<lfloor>clip ((v / cmax) * 255) 0 255\<rfloor>"

definition rgb_chunk :: "rgb list \<Rightarrow> real \<Rightarrow> real list \<Rightarrow> rgb list" where
  "rgb_chunk lut cmax coldata = map (\<lambda>v. lut ! unat (chunk_normalized cmax v)) coldata"

datatype 'a message = Item nat 'a | STOP

fun worker :: "('a \<Rightarrow> real list) \<Rightarrow> rgb list \<Rightarrow> real \<Rightarrow> 'a message list
                 \<Rightarrow> (nat \<times> rgb list) list" where
  "worker calc_val lut cmax [] = []"
| "worker calc_val lut cmax (STOP # rest) = []"
| "worker calc_val lut cmax (Item i args # rest) =
     (i, rgb_chunk lut cmax (calc_val args)) # worker calc_val lut cmax rest"

section \<open>Checkpoint file\<close>

text \<open>
  The checkpoint lives in one file, \<open>SAVE_FILE\<close>.  Its durable state is: no file, a file
  that exists but cannot be opened for reading, or a file with some text.
\<close>

datatype disk_file = Absent | Unreadable | File string

datatype exn = FileNotFoundError | PermissionError | FileExistsError | JSONDecodeError

definition os_path_exists :: "disk_file \<Rightarrow> bool" where
  "os_path_exists f = (f \<noteq> Absent)"

definition open_read :: "disk_file \<Rightarrow> exn + string" where
  "open_read f = (case f of Absent \<Rightarrow> Inl FileNotFoundError
                          | Unreadable \<Rightarrow> Inl PermissionError
                          | File s \<Rightarrow> Inr s)"

text \<open>Python's \<open>str\<close> of an integer, and \<open>json.dump(d, f, indent=2)\<close> of a dict
  with plain string keys and integer values.\<close>

fun digits :: "nat \<Rightarrow> string" where
  "digits n = (if n < 10 then [char_of (48 + n)]
               else digits (n div 10) @ [char_of (48 + n mod 10)])"

declare digits.simps [simp del]

definition str_int :: "int \<Rightarrow> string" where
  "str_int k = (if k < 0 then CHR ''-'' # digits (nat (- k)) else digits (nat k))"

definition json_item :: "string \<times> int \<Rightarrow> string" where
  "json_item kv = ''  '' @ [CHR 0x22] @ fst kv @ [CHR 0x22] @ '': '' @ str_int (snd kv)"

fun join :: "string \<Rightarrow> string list \<Rightarrow> string" where
  "join sep [] = []"
| "join sep [x] = x"
| "join sep (x # y # ys) = x @ sep @ join sep (y # ys)"

definition json_dump :: "(string \<times> int) list \<Rightarrow> string" where
  "json_dump d = (if d = [] then ''{}''
                  else ''{'' @ [CHR 0x0A] @ join ('','' @ [CHR 0x0A]) (map json_item d)
                       @ [CHR 0x0A] @ ''}'')"

text \<open>
  \<^verbatim>\<open>
  def save_progress(im_scale, current_strip, total_strips):
      if os.path.exists(SAVE_FILE):
          os.remove(SAVE_FILE)
      progress_data = {
          'im_scale': im_scale,
          'current_strip': current_strip,
          'total_strips': total_strips,
          'max_iter': max_iter,
          'color_reference': color_reference
      }
      with open(SAVE_FILE, 'w') as f:
          json.dump(progress_data, f, indent=2)
  \<close>
  \<open>save_progress_states\<close> lists what the file holds before the call and after each of
  its three effects on storage: the removal, the \<open>open(..., 'w')\<close> that creates an empty
  file, and the write of the text (complete when the \<open>with\<close> block closes the file).
  \<open>save_progress\<close> is the state the call leaves.
\<close>

definition progress_data :: "int \<Rightarrow> int \<Rightarrow> int \<Rightarrow> (string \<times> int) list" where
  "progress_data im_scale current_strip total_strips =
     [(''im_scale'', im_scale),
      (''current_strip'', current_strip),
      (''total_strips'', total_strips),
      (''max_iter'', max_iter),
      (''color_reference'', color_reference)]"

definition save_progress_states :: "int \<Rightarrow> int \<Rightarrow> int \<Rightarrow> disk_file \<Rightarrow> disk_file list" where
  "save_progress_states im_scale current_strip total_strips f0 =
     (let f1 = (if os_path_exists f0 then Absent else f0);
          f2 = File [];
          f3 = File (json_dump (progress_data im_scale current_strip total_strips))
      in [f0, f1, f2, f3])"

definition save_progress :: "int \<Rightarrow> int \<Rightarrow> int \<Rightarrow> disk_file \<Rightarrow> disk_file" where
  "save_progress im_scale current_strip total_strips f0 =
     last (save_progress_states im_scale current_strip total_strips f0)"

text \<open>
  \<^verbatim>\<open>
  def load_progress():
      if not os.path.exists(SAVE_FILE):
          return None
      try:
          with open(SAVE_FILE, 'r') as f:
              return json.load(f)
      except:
          return None
  \<close>
  \<open>json.load\<close> is the standard library's parser, a parameter here: on a text it raises
  or returns a Python value, which is \<open>None\<close> (for the document \<open>null\<close>) or some
  other value \<open>Some v\<close>.  The result of \<open>load_progress\<close> is an exception that escapes
  the function (\<open>Inl\<close>) or the value returned (\<open>Inr\<close>).
\<close>

definition load_progress :: "(string \<Rightarrow> exn + 'j option) \<Rightarrow> disk_file \<Rightarrow> exn + 'j option" where
  "load_progress json_load f =
     (if \<not> os_path_exists f then Inr None
      else (case open_read f of
              Inl e \<Rightarrow> Inr None
            | Inr s \<Rightarrow> (case json_load s of
                         Inl e \<Rightarrow> Inr None
                       | Inr v \<Rightarrow> Inr v)))"

section \<open>Control channel\<close>

text \<open>
  The three process-wide flags \<open>paused\<close>, \<open>exit_confirm\<close> and \<open>save_requested\<close>
  are \<open>mp.Value('i', 0)\<close> integers.
\<close>

record flags =
  paused :: int
  exit_confirm :: int
  save_requested :: int

definition initial_flags :: flags where
  "initial_flags = \<lparr>paused = 0, exit_confirm = 0, save_requested = 0\<rparr>"

text \<open>
  \<^verbatim>\<open>
  ch = sys.stdin.read(1)
  if ch.lower() == 'p':
      with pause_lock:
          if exit_confirm.value == 1:
              exit_confirm.value = 0
              paused.value = 0
          elif paused.value == 0:
              paused.value = 1
          else:
              paused.value = 0
  elif ch.lower() == 's':
      with pause_lock:
          if paused.value == 1:
              save_requested.value = 1
  elif ch.lower() == 'e':
      if exit_confirm.value == 1:
          os._exit(0)
      else:
          exit_confirm.value = 1
          paused.value = 1
  elif ch == '\x03':
      os._exit(0)
  \<close>
  One key press takes the flags to new flags, or ends the process (\<open>os._exit(0)\<close>).
  \<open>lower\<close> is \<open>str.lower\<close> on one ASCII character.
\<close>

datatype listener = Listening flags | Exited

definition lower :: "char \<Rightarrow> char" where
  "lower ch = (let n = (of_char ch :: nat) in
               if 65 \<le> n \<and> n \<le> 90 then char_of (n + 32) else ch)"

definition key_press :: "char \<Rightarrow> flags \<Rightarrow> listener" where
  "key_press ch f =
     (if lower ch = CHR ''p'' then
        (if exit_confirm f = 1 then Listening (f\<lparr>exit_confirm := 0, paused := 0\<rparr>)
         else if paused f = 0 then Listening (f\<lparr>paused := 1\<rparr>)
         else Listening (f\<lparr>paused := 0\<rparr>))
      else if lower ch = CHR ''s'' then
        (if paused f = 1 then Listening (f\<lparr>save_requested := 1\<rparr>)
         else Listening f)
      else if lower ch = CHR ''e'' then
        (if exit_confirm f = 1 then Exited
         else Listening (f\<lparr>exit_confirm := 1, paused := 1\<rparr>))
      else if ch = CHR 0x03 then Exited
      else Listening f)"

text \<open>The \<open>while True\<close> loop of \<open>input_listener\<close> over the keys read so far.\<close>

fun input_listener :: "char list \<Rightarrow> flags \<Rightarrow> listener" where
  "input_listener [] f = Listening f"
| "input_listener (ch # chs) f =
     (case key_press ch f of
        Exited \<Rightarrow> Exited
      | Listening f' \<Rightarrow> input_listener chs f')"

section \<open>Tiles directory setup\<close>

text \<open>
  The path \<open>tiles_dir\<close> names nothing (\<open>None\<close>) or a directory, given by its entries:
  a map from the path below \<open>tiles_dir\<close> (a list of names) to a sub-directory or a regular
  file with its content.
\<close>

datatype 'c entry = Directory | Regular 'c

type_synonym 'c tiles_dir = "(string list \<rightharpoonup> 'c entry) option"

definition entry_at :: "'c tiles_dir \<Rightarrow> string list \<Rightarrow> 'c entry option" where
  "entry_at td p = (case td of None \<Rightarrow> None | Some t \<Rightarrow> t p)"

definition shutil_rmtree :: "'c tiles_dir \<Rightarrow> 'c tiles_dir" where
  "shutil_rmtree td = None"

definition os_makedirs :: "'c tiles_dir \<Rightarrow> 'c tiles_dir" where
  "os_makedirs td = (case td of None \<Rightarrow> Some Map.empty | Some t \<Rightarrow> Some t)"

text \<open>
  \<^verbatim>\<open>
  if start_strip == 0:
      if os.path.exists(tiles_dir):
          shutil.rmtree(tiles_dir)
      os.makedirs(tiles_dir, exist_ok=True)
  else:
      _log.info(f'Resuming - using existing DeepZoom directory: {tiles_dir}')
  \<close>
\<close>

definition setup_tiles_dir :: "int \<Rightarrow> 'c tiles_dir \<Rightarrow> 'c tiles_dir" where
  "setup_tiles_dir start_strip td =
     (if start_strip = 0 then
        os_makedirs (if td \<noteq> None then shutil_rmtree td else td)
      else td)"

text \<open>
  \<^verbatim>\<open>
  level_dir = os.path.join(tiles_dir, str(max_level))
  os.makedirs(level_dir, exist_ok=True)
  \<close>
  runs on every start, before the strip loop.  It raises when the name is taken by a regular
  file.
\<close>

definition make_level_dir :: "int \<Rightarrow> 'c tiles_dir \<Rightarrow> exn + 'c tiles_dir" where
  "make_level_dir max_level td =
     (let level_dir = [str_int max_level] in
      case os_makedirs td of
        None \<Rightarrow> Inr None
      | Some t \<Rightarrow>
          (case t level_dir of
             None \<Rightarrow> Inr (Some (t(level_dir \<mapsto> Directory)))
           | Some Directory \<Rightarrow> Inr (Some t)
           | Some (Regular c) \<Rightarrow> Inl FileExistsError))"

section \<open>Strip pipeline\<close>

text \<open>
  Durable storage as the strip loop uses it: the temporary chunk files
  \<open>temp_chunk_{i:04d}.npy\<close> keyed by chunk index, the tile files
  \<open>{level}/{col}_{row}.png\<close> keyed by level, column and row, and the checkpoint file.
\<close>

record ('c, 't) storage =
  chunk_files :: "nat \<rightharpoonup> 'c"
  tiles :: "int \<times> nat \<times> int \<rightharpoonup> 't"
  save_file :: disk_file

text \<open>
  \<^verbatim>\<open>
  def wait_if_paused():
      if paused.value == 1 and exit_confirm.value == 0:
          tqdm.write("\nPaused. Press 'p' to resume, 's' to save and exit.")
      while paused.value == 1:
          if save_requested.value == 1:
              return True
          threading.Event().wait(0.1)
      return False
  \<close>
  The flags are written by the listener thread while the pipeline runs.  The pipeline's
  view of them is the list of what it reads at its successive polls: one element per
  evaluation of the loop condition (with the test in the loop body), and one per read of
  \<open>save_requested\<close> in the strip loop.  The first \<open>if\<close> only prints a message and
  is left out.  The result is \<open>None\<close> when the list ends while the loop is still
  waiting; otherwise the returned bool and the remaining reads.
\<close>

fun wait_if_paused :: "flags list \<Rightarrow> (bool \<times> flags list) option" where
  "wait_if_paused [] = None"
| "wait_if_paused (f # obs) =
     (if paused f = 1 then
        (if save_requested f = 1 then Some (True, obs) else wait_if_paused obs)
      else Some (False, obs))"

text \<open>
  \<^verbatim>\<open>
  for i in range(nc):
      chunk_file = os.path.join(tiles_dir, f'temp_chunk_{i:04d}.npy')
      if os.path.exists(chunk_file):
          os.remove(chunk_file)
  \<close>
\<close>

definition remove_chunk_files :: "nat \<Rightarrow> (nat \<rightharpoonup> 'c) \<Rightarrow> (nat \<rightharpoonup> 'c)" where
  "remove_chunk_files n cf = (\<lambda>i. if i < n then None else cf i)"

text \<open>
  \<^verbatim>\<open>
  for j in range(nc):
      i, rgb_chunk = outqueue.get()
      chunk_file = os.path.join(tiles_dir, f'temp_chunk_{i:04d}.npy')
      np.save(chunk_file, rgb_chunk)
      ...
      should_save = wait_if_paused()
      if should_save:
          ...
          break
  \<close>
  The second argument is what \<open>outqueue.get()\<close> returns, in arrival order; the loop is
  stuck when a result it waits for never arrives.
\<close>

datatype ('c, 't) loop_exit =
    Collected "('c, 't) storage" "flags list"
  | ShouldSave "('c, 't) storage"
  | Stuck

fun chunk_loop :: "nat \<Rightarrow> (nat \<times> 'c) list \<Rightarrow> flags list \<Rightarrow> ('c, 't) storage
                     \<Rightarrow> ('c, 't) loop_exit" where
  "chunk_loop 0 outqueue obs st = Collected st obs"
| "chunk_loop (Suc n) [] obs st = Stuck"
| "chunk_loop (Suc n) ((i, rgb) # outqueue) obs st =
     (let st1 = st\<lparr>chunk_files := (chunk_files st)(i \<mapsto> rgb)\<rparr> in
      case wait_if_paused obs of
        None \<Rightarrow> Stuck
      | Some (should_save, obs') \<Rightarrow>
          if should_save then ShouldSave st1 else chunk_loop n outqueue obs' st1)"

text \<open>
  \<^verbatim>\<open>
  strip_buffer = np.zeros((strip_height, nx, 3), dtype=np.uint8)
  for i in range(nc):
      chunk_file = os.path.join(tiles_dir, f'temp_chunk_{i:04d}.npy')
      chunk_mmap = np.load(chunk_file, mmap_mode='r')
      strip_buffer[:, bx[i]:ex[i], :] = chunk_mmap[:, :, :]
  strip_buffer = image_processor.flip_vertical(strip_buffer)
  tiles = image_processor.split_into_tiles(strip_buffer, TILE_SIZE)
  tile_row = strips_per_height - 1 - strip_idx
  for tile_x_idx, tile_data in enumerate(tiles):
      save_tile(tile_data, max_level, tile_x_idx, tile_row, tiles_dir)
  for i in range(nc):
      chunk_file = os.path.join(tiles_dir, f'temp_chunk_{i:04d}.npy')
      if os.path.exists(chunk_file):
          os.remove(chunk_file)
  \<close>
  This block occurs twice in the strip loop, word for word: in the branch that finishes the
  strip for a save and in the normal completion.  The strip buffer is the list of the chunks
  in index order (the column bands it is filled by); \<open>np.load\<close> of a missing file
  raises.  \<open>image_processor\<close> is a compiled extension: \<open>flip_vertical\<close> and
  \<open>split_into_tiles\<close> are parameters.
\<close>

fun load_chunks :: "nat list \<Rightarrow> (nat \<rightharpoonup> 'c) \<Rightarrow> exn + 'c list" where
  "load_chunks [] cf = Inr []"
| "load_chunks (i # is) cf =
     (case cf i of
        None \<Rightarrow> Inl FileNotFoundError
      | Some c \<Rightarrow> (case load_chunks is cf of
                    Inl e \<Rightarrow> Inl e
                  | Inr cs \<Rightarrow> Inr (c # cs)))"

definition save_tile :: "'t \<Rightarrow> int \<Rightarrow> nat \<Rightarrow> int \<Rightarrow> (int \<times> nat \<times> int \<rightharpoonup> 't)
                           \<Rightarrow> (int \<times> nat \<times> int \<rightharpoonup> 't)" where
  "save_tile tile_data level col row ts = ts((level, col, row) \<mapsto> tile_data)"

definition tile_row :: "int \<Rightarrow> int \<Rightarrow> int" where
  "tile_row strips_per_height strip_idx = strips_per_height - 1 - strip_idx"

definition assemble_strip ::
  "('c list \<Rightarrow> 'c list) \<Rightarrow> ('c list \<Rightarrow> int \<Rightarrow> 't list) \<Rightarrow> int \<Rightarrow> int \<Rightarrow> int \<Rightarrow> int
     \<Rightarrow> ('c, 't) storage \<Rightarrow> exn + ('c, 't) storage" where
  "assemble_strip flip_vertical split_into_tiles nx strips_per_height max_level strip_idx st =
     (case load_chunks [0 ..< nat (nc nx)] (chunk_files st) of
        Inl e \<Rightarrow> Inl e
      | Inr strip_buffer \<Rightarrow>
          (let flipped = flip_vertical strip_buffer;
               tiles' = split_into_tiles flipped TILE_SIZE;
               row = tile_row strips_per_height strip_idx
           in Inr (st\<lparr>tiles := fold (\<lambda>(tile_x_idx, tile_data).
                                       save_tile tile_data max_level tile_x_idx row)
                                 (enumerate 0 tiles') (tiles st),
                       chunk_files := remove_chunk_files (nat (nc nx)) (chunk_files st)\<rparr>)))"

text \<open>
  One iteration of \<open>for strip_idx in range(start_strip, strips_per_height)\<close>:
  \<^verbatim>\<open>
      for j in range(nc):
          ...
          should_save = wait_if_paused()
          if should_save:
              for p in workers: p.terminate()
              feedp.terminate()
              for i in range(nc): (remove temp_chunk_i if it exists)
              save_progress(im_scale, strip_idx, strips_per_height)
              save_requested.value = 0
              saved_and_exited = True
              break
      if saved_and_exited:
          break
      if save_requested.value == 1:
          (stop and join the workers; assemble, flip, split, save tiles, remove chunk files)
          save_progress(im_scale, strip_idx + 1, strips_per_height)
          save_requested.value = 0; paused.value = 0
          saved_and_exited = True
          break
      if save_requested.value == 0:
          (stop and join the workers)
      if save_requested.value == 0:
          (assemble, flip, split, save tiles, remove chunk files)
          if save_requested.value == 1:
              save_progress(im_scale, strip_idx + 1, strips_per_height)
              save_requested.value = 0; paused.value = 0
              saved_and_exited = True
              break
          wait_if_paused()
  \<close>
  \<open>Saved\<close> is \<open>saved_and_exited\<close>: the loop is left and the process exits.
  \<open>Next\<close> is the end of the iteration, with the reads left for the next strip.
  \<open>Waiting\<close> is a pipeline that still polls or waits when the list of reads ends.  The
  writes to the flags on the way out are not represented: no poll follows them.  Stopping
  and joining the worker processes has no effect on storage.
\<close>

datatype ('c, 't) outcome =
    Saved "('c, 't) storage"
  | Next "('c, 't) storage" "flags list"
  | Raised exn
  | Waiting

definition process_strip ::
  "('c list \<Rightarrow> 'c list) \<Rightarrow> ('c list \<Rightarrow> int \<Rightarrow> 't list) \<Rightarrow> int \<Rightarrow> int \<Rightarrow> int \<Rightarrow> int \<Rightarrow> int
     \<Rightarrow> (nat \<times> 'c) list \<Rightarrow> flags list \<Rightarrow> ('c, 't) storage \<Rightarrow> ('c, 't) outcome" where
  "process_strip flip_vertical split_into_tiles nx im_scale strips_per_height max_level
       strip_idx outqueue obs st =
     (case chunk_loop (nat (nc nx)) outqueue obs st of
        Stuck \<Rightarrow> Waiting
      | ShouldSave st1 \<Rightarrow>
          Saved (st1\<lparr>chunk_files := remove_chunk_files (nat (nc nx)) (chunk_files st1),
                     save_file := save_progress im_scale strip_idx strips_per_height
                                    (save_file st1)\<rparr>)
      | Collected st1 obs1 \<Rightarrow>
          (case obs1 of
             [] \<Rightarrow> Waiting
           | f1 # obs2 \<Rightarrow>
               if save_requested f1 = 1 then
                 (case assemble_strip flip_vertical split_into_tiles nx strips_per_height
                         max_level strip_idx st1 of
                    Inl e \<Rightarrow> Raised e
                  | Inr st2 \<Rightarrow>
                      Saved (st2\<lparr>save_file := save_progress im_scale (strip_idx + 1)
                                                strips_per_height (save_file st2)\<rparr>))
               else
                 (case obs2 of
                    [] \<Rightarrow> Waiting
                  | f2 # obs3 \<Rightarrow>
                      (case obs3 of
                         [] \<Rightarrow> Waiting
                       | f3 # obs4 \<Rightarrow>
                           if save_requested f3 = 0 then
                             (case assemble_strip flip_vertical split_into_tiles nx
                                     strips_per_height max_level strip_idx st1 of
                                Inl e \<Rightarrow> Raised e
                              | Inr st2 \<Rightarrow>
                                  (case obs4 of
                                     [] \<Rightarrow> Waiting
                                   | f4 # obs5 \<Rightarrow>
                                       if save_requested f4 = 1 then
                                         Saved (st2\<lparr>save_file :=
                                                  save_progress im_scale (strip_idx + 1)
                                                    strips_per_height (save_file st2)\<rparr>)
                                       else
                                         (case wait_if_paused obs5 of
                                            None \<Rightarrow> Waiting
                                          | Some (should_save, obs6) \<Rightarrow> Next st2 obs6)))
                           else Next st1 obs4))))"

section \<open>Properties of the chunk grid\<close>

lemma length_arange: "length (arange n) = nat n"
  by (simp add: arange_def)

lemma nth_arange: "i < nat n \<Longrightarrow> arange n ! i = int i"
  by (simp add: arange_def)

lemma nc_ceil: "nc nx = (nx + 63) div 64"
  unfolding nc_def fx_def ncol_def by (simp; linarith)

lemma length_bx: "length (bx nx) = nat (nc nx)"
  by (simp add: bx_def length_arange)

lemma length_ex: "length (ex nx) = nat (nc nx)"
  by (simp add: ex_def length_arange)

lemma nth_bx: "i < nat (nc nx) \<Longrightarrow> bx nx ! i = int i * 64"
  by (simp add: bx_def length_arange nth_arange ncol_def)

lemma nth_ex: "i < nat (nc nx) \<Longrightarrow> ex nx ! i = min ((int i + 1) * 64) nx"
  by (simp add: ex_def length_arange nth_arange ncol_def clip_def max_def)

lemma nc_bounds: "64 * nc nx - 64 < nx \<and> nx \<le> 64 * nc nx"
proof -
  define q where "q = (nx + 63) div 64"
  define m where "m = (nx + 63) mod 64"
  have lo: "0 \<le> m" and hi: "m < 64" by (simp_all add: m_def)
  have eq: "64 * q + m = nx + 63" by (simp add: q_def m_def)
  have "64 * q - 64 < nx" using lo hi eq by linarith
  moreover have "nx \<le> 64 * q" using lo hi eq by linarith
  ultimately show ?thesis unfolding nc_ceil q_def by simp
qed

lemma nc_pos: "0 < nx \<Longrightarrow> 0 < nc nx"
  using nc_bounds[of nx] by linarith

lemma chunk_nonempty:
  assumes "i < nat (nc nx)"
  shows "bx nx ! i < ex nx ! i"
proof -
  have "int i \<le> nc nx - 1" using assms by linarith
  then have "int i * 64 < nx" using nc_bounds[of nx] by auto
  then show ?thesis using assms by (simp add: nth_bx nth_ex)
qed

lemma chunk_disjoint: "i < j \<Longrightarrow> j < nat (nc nx) \<Longrightarrow> ex nx ! i \<le> bx nx ! j"
  by (simp add: nth_bx nth_ex)

lemma chunk_cover:
  assumes "0 \<le> x" "x < nx"
  shows "\<exists>i < nat (nc nx). bx nx ! i \<le> x \<and> x < ex nx ! i"
proof -
  let ?i = "nat (x div 64)"
  have d: "0 \<le> x div 64" using assms by simp
  have lt: "x div 64 < nc nx" using assms nc_bounds[of nx] by linarith
  then have i: "?i < nat (nc nx)" using d by linarith
  have "int ?i * 64 \<le> x" using d by simp
  moreover have "x < (int ?i + 1) * 64" using d by simp
  ultimately have "bx nx ! ?i \<le> x \<and> x < ex nx ! ?i"
    using i assms by (simp add: nth_bx nth_ex)
  with i show ?thesis by blast
qed

lemma chunk_within:
  assumes "i < nat (nc nx)" "bx nx ! i \<le> x" "x < ex nx ! i"
  shows "0 \<le> x \<and> x < nx"
  using assms by (simp add: nth_bx nth_ex)

lemma feeder_cols: "map (fst \<circ> snd) (feeder nx ys ye) = zip (bx nx) (ex nx)"
  by (rule nth_equalityI) (simp_all add: feeder_def length_bx length_ex)

lemma nc_100_int: "nc 100 = 2"
  by (simp add: nc_def fx_def ncol_def)

text \<open>
  Claim C3, as stated: the chunk grid has a fixed number of column bands, a constant that
  does not depend on the image width.  The code fixes the band width \<open>ncol = 64\<close>
  and derives the count from the width: the widths of scale 1 and scale 2 give 160 and 320
  chunks.
\<close>

theorem chunk_count_depends_on_width:
  "nc 10240 = 160 \<and> nc 20480 = 320 \<and> nc 10240 \<noteq> nc 20480"
  by (simp add: nc_def fx_def ncol_def)

text \<open>
  Claim C3, amended: the chunk grid is a fixed-width column partition.  For every positive
  width the number of bands is the width divided by \<open>ncol\<close>, rounded up; band \<open>i\<close>
  starts at column \<open>i * ncol\<close>; every band but the last is exactly \<open>ncol\<close> columns
  wide, and the last band holds the remaining columns, at least one and at most \<open>ncol\<close>.
\<close>

theorem chunk_grid_fixed_width:
  assumes "0 < nx"
  shows "nc nx = (nx + ncol - 1) div ncol
       \<and> (\<forall>i < nat (nc nx). bx nx ! i = int i * ncol)
       \<and> (\<forall>i < nat (nc nx). ex nx ! i - bx nx ! i
             = (if int i + 1 < nc nx then ncol else nx - ncol * (nc nx - 1)))
       \<and> 0 < nx - ncol * (nc nx - 1) \<and> nx - ncol * (nc nx - 1) \<le> ncol"
proof -
  have b: "64 * nc nx - 64 < nx" "nx \<le> 64 * nc nx" using nc_bounds[of nx] by simp_all
  have cnt: "nc nx = (nx + ncol - 1) div ncol" by (simp add: nc_ceil ncol_def)
  have width: "ex nx ! i - bx nx ! i = (if int i + 1 < nc nx then ncol else nx - ncol * (nc nx - 1))"
    if i: "i < nat (nc nx)" for i
  proof (cases "int i + 1 < nc nx")
    case True
    then have "int i * 64 + 64 \<le> nx" using b by linarith
    then show ?thesis using True i by (simp add: nth_bx nth_ex ncol_def algebra_simps)
  next
    case False
    then have "int i + 1 = nc nx" using i by linarith
    then have "nx \<le> int i * 64 + 64" "int i * 64 = 64 * nc nx - 64" using b by linarith+
    then show ?thesis using False i by (simp add: nth_bx nth_ex ncol_def algebra_simps)
  qed
  have last: "0 < nx - ncol * (nc nx - 1)" "nx - ncol * (nc nx - 1) \<le> ncol"
    using b by (simp_all add: ncol_def algebra_simps)
  show ?thesis using cnt width last by (simp add: nth_bx ncol_def)
qed

theorem chunk_grid_fixed_width_witness:
  "(0::int) < 100
   \<and> nc 100 = (100 + ncol - 1) div ncol
   \<and> nc 100 = 2
   \<and> bx 100 ! 0 = 0 \<and> ex 100 ! 0 - bx 100 ! 0 = ncol
   \<and> bx 100 ! 1 = ncol \<and> ex 100 ! 1 - bx 100 ! 1 = 36
   \<and> 0 < 100 - ncol * (nc 100 - 1) \<and> 100 - ncol * (nc 100 - 1) \<le> ncol"
proof -
  have h: "(0::int) < 100" by simp
  note t = chunk_grid_fixed_width[OF h]
  have i0: "0 < nat (nc 100)" and i1: "1 < nat (nc 100)" by (simp_all add: nc_100_int)
  have cnt: "nc 100 = (100 + ncol - 1) div ncol" by (rule t[THEN conjunct1])
  have b0: "bx 100 ! 0 = 0"
    using t[THEN conjunct2, THEN conjunct1, rule_format, OF i0] by simp
  have b1: "bx 100 ! 1 = ncol"
    using t[THEN conjunct2, THEN conjunct1, rule_format, OF i1] by simp
  have w0: "ex 100 ! 0 - bx 100 ! 0 = ncol"
    using t[THEN conjunct2, THEN conjunct2, THEN conjunct1, rule_format, OF i0]
    by (simp add: nc_100_int)
  have w1: "ex 100 ! 1 - bx 100 ! 1 = 36"
    using t[THEN conjunct2, THEN conjunct2, THEN conjunct1, rule_format, OF i1]
    by (simp add: nc_100_int ncol_def)
  have l: "0 < 100 - ncol * (nc 100 - 1) \<and> 100 - ncol * (nc 100 - 1) \<le> ncol"
    by (rule t[THEN conjunct2, THEN conjunct2, THEN conjunct2])
  show ?thesis using h cnt nc_100_int b0 b1 w0 w1 l by simp
qed

text \<open>
  Claim C4: for every positive image width the chunk column ranges \<open>[bx[i], ex[i])\<close>,
  \<open>i\<close> in \<open>[0, nc)\<close>, are each non-empty, pairwise disjoint (an earlier range ends
  no later than a later one begins), and a column lies in some range exactly when it lies in
  \<open>[0, nx)\<close>; the column ranges of the work items that \<open>feeder\<close> emits are this
  grid whatever the strip.
\<close>

theorem chunk_grid_partition:
  assumes "0 < nx"
  shows "0 < nc nx \<and> length (bx nx) = nat (nc nx) \<and> length (ex nx) = nat (nc nx)
       \<and> (\<forall>i < nat (nc nx). bx nx ! i < ex nx ! i)
       \<and> (\<forall>i j. i < j \<and> j < nat (nc nx) \<longrightarrow> ex nx ! i \<le> bx nx ! j)
       \<and> (\<forall>x. (\<exists>i < nat (nc nx). bx nx ! i \<le> x \<and> x < ex nx ! i) \<longleftrightarrow> (0 \<le> x \<and> x < nx))
       \<and> (\<forall>ys ye. map (fst \<circ> snd) (feeder nx ys ye) = zip (bx nx) (ex nx))"
proof -
  have cover: "(\<exists>i < nat (nc nx). bx nx ! i \<le> x \<and> x < ex nx ! i) \<longleftrightarrow> (0 \<le> x \<and> x < nx)" for x
    using chunk_cover[of x nx] chunk_within[of _ nx x] by blast
  show ?thesis
    using nc_pos[OF assms] length_bx length_ex chunk_nonempty chunk_disjoint cover feeder_cols
    by blast
qed

theorem chunk_grid_partition_witness:
  "(0::int) < 100
   \<and> 0 < nc 100 \<and> length (bx 100) = nat (nc 100) \<and> length (ex 100) = nat (nc 100)
   \<and> bx 100 ! 0 < ex 100 ! 0 \<and> bx 100 ! 1 < ex 100 ! 1
   \<and> ex 100 ! 0 \<le> bx 100 ! 1
   \<and> (\<exists>i < nat (nc 100). bx 100 ! i \<le> 70 \<and> 70 < ex 100 ! i)
   \<and> \<not> (\<exists>i < nat (nc 100). bx 100 ! i \<le> 100 \<and> 100 < ex 100 ! i)
   \<and> map (fst \<circ> snd) (feeder 100 0 256) = zip (bx 100) (ex 100)
   \<and> map (fst \<circ> snd) (feeder 100 256 512) = zip (bx 100) (ex 100)"
proof -
  have h: "(0::int) < 100" by simp
  note t = chunk_grid_partition[OF h]
  have i0: "0 < nat (nc 100)" and i1: "1 < nat (nc 100)"
    and i01: "(0::nat) < 1 \<and> 1 < nat (nc 100)" by (simp_all add: nc_100_int)
  have a: "0 < nc 100" by (rule t[THEN conjunct1])
  have b: "length (bx 100) = nat (nc 100)" by (rule t[THEN conjunct2, THEN conjunct1])
  have c: "length (ex 100) = nat (nc 100)"
    by (rule t[THEN conjunct2, THEN conjunct2, THEN conjunct1])
  note ne = t[THEN conjunct2, THEN conjunct2, THEN conjunct2, THEN conjunct1, rule_format]
  have n0: "bx 100 ! 0 < ex 100 ! 0" by (rule ne[OF i0])
  have n1: "bx 100 ! 1 < ex 100 ! 1" by (rule ne[OF i1])
  have d: "ex 100 ! 0 \<le> bx 100 ! 1"
    by (rule t[THEN conjunct2, THEN conjunct2, THEN conjunct2, THEN conjunct2, THEN conjunct1,
               rule_format, OF i01])
  note cov = t[THEN conjunct2, THEN conjunct2, THEN conjunct2, THEN conjunct2, THEN conjunct2,
               THEN conjunct1, rule_format]
  have e: "\<exists>i < nat (nc 100). bx 100 ! i \<le> 70 \<and> 70 < ex 100 ! i"
    using cov[of 70] by simp
  have f: "\<not> (\<exists>i < nat (nc 100). bx 100 ! i \<le> 100 \<and> 100 < ex 100 ! i)"
    using cov[of 100] by simp
  note fd = t[THEN conjunct2, THEN conjunct2, THEN conjunct2, THEN conjunct2, THEN conjunct2,
               THEN conjunct2, rule_format]
  show ?thesis
    by (intro conjI h a b c n0 n1 d e f fd)
qed

section \<open>Properties of the pyramid level dimensions\<close>

lemma ceil_pow2: "\<lceil>real_of_int w / 2 ^ k\<rceil> = - ((- w) div 2 ^ k)"
  using ceiling_divide_eq_div[of w "2 ^ k"] by simp

lemma level_dim: "0 \<le> d \<Longrightarrow> \<lceil>real_of_int w / 2 powi d\<rceil> = - ((- w) div 2 ^ nat d)"
  by (simp add: power_int_def ceil_pow2)

lemma level_dim_pos:
  assumes "0 < (w::int)"
  shows "1 \<le> - ((- w) div 2 ^ k)"
proof -
  have "(- w) div 2 ^ k < 0" using assms by (simp add: div_neg_pos_less0)
  then show ?thesis by linarith
qed

lemma level_dim_step: "- ((- w) div 2 ^ Suc k) = - ((- (- ((- w) div 2 ^ k))) div (2::int))"
proof -
  have "(- w) div (2 ^ k * 2) = (- w) div 2 ^ k div 2"
    by (rule zdiv_zmult2_eq) simp
  then show ?thesis by (simp add: mult.commute)
qed

lemma gld_fst:
  assumes "0 < W" "L \<le> M"
  shows "fst (get_level_dimensions W H L M) = - ((- W) div 2 ^ nat (M - L))"
  using assms level_dim_pos[OF assms(1), of "nat (M - L)"]
  by (simp add: get_level_dimensions_def Let_def level_dim)

lemma gld_snd:
  assumes "0 < H" "L \<le> M"
  shows "snd (get_level_dimensions W H L M) = - ((- H) div 2 ^ nat (M - L))"
  using assms level_dim_pos[OF assms(1), of "nat (M - L)"]
  by (simp add: get_level_dimensions_def Let_def level_dim)

lemma half_ceiling: "\<lceil>real_of_int c / 2\<rceil> = - ((- c) div 2)"
  using ceiling_divide_eq_div[of c 2] by simp

text \<open>
  Claim C9: for every positive full resolution and every level \<open>L\<close> with
  \<open>0 \<le> L < max_level\<close>, each component of the dimensions of level \<open>L\<close> is half the
  corresponding component of level \<open>L + 1\<close>, rounded up, and the dimensions of level
  \<open>max_level\<close> are the full resolution.
\<close>

theorem level_dimensions_halve:
  assumes "0 < W" "0 < H" "0 \<le> L" "L < M"
  shows "fst (get_level_dimensions W H L M)
           = \<lceil>real_of_int (fst (get_level_dimensions W H (L + 1) M)) / 2\<rceil>
       \<and> snd (get_level_dimensions W H L M)
           = \<lceil>real_of_int (snd (get_level_dimensions W H (L + 1) M)) / 2\<rceil>
       \<and> get_level_dimensions W H M M = (W, H)"
proof -
  have k: "nat (M - L) = Suc (nat (M - (L + 1)))" using assms by linarith
  have top: "get_level_dimensions W H M M = (W, H)"
    using assms by (simp add: get_level_dimensions_def Let_def)
  have w: "fst (get_level_dimensions W H L M)
           = \<lceil>real_of_int (fst (get_level_dimensions W H (L + 1) M)) / 2\<rceil>"
    using assms unfolding half_ceiling by (simp only: gld_fst k level_dim_step)
  have h: "snd (get_level_dimensions W H L M)
           = \<lceil>real_of_int (snd (get_level_dimensions W H (L + 1) M)) / 2\<rceil>"
    using assms unfolding half_ceiling by (simp only: gld_snd k level_dim_step)
  from w h top show ?thesis by simp
qed

theorem level_dimensions_halve_witness:
  "(0::int) < 1024 \<and> (0::int) < 768 \<and> (0::int) \<le> 9 \<and> (9::int) < 10
   \<and> fst (get_level_dimensions 1024 768 9 10)
           = \<lceil>real_of_int (fst (get_level_dimensions 1024 768 (9 + 1) 10)) / 2\<rceil>
   \<and> snd (get_level_dimensions 1024 768 9 10)
           = \<lceil>real_of_int (snd (get_level_dimensions 1024 768 (9 + 1) 10)) / 2\<rceil>
   \<and> get_level_dimensions 1024 768 10 10 = (1024, 768)"
  using level_dimensions_halve[of 1024 768 9 10] by simp

section \<open>Properties of the worker\<close>

lemma clip_scale: "clip (x * 255) 0 255 = clip x 0 1 * (255::real)"
  by (auto simp: clip_def min_def max_def)

lemma clip_range: "0 \<le> clip x 0 (1::real) \<and> clip x 0 1 \<le> 1"
  by (auto simp: clip_def min_def max_def)

lemma byte_floor:
  assumes "0 \<le> (k::int)" "k < 256"
  shows "unat (word_of_int k :: 8 word) = nat k"
  using assms by (simp add: unat_eq_nat_uint uint_word_of_int)

lemma floor_byte: "0 \<le> \<lfloor>clip x 0 1 * (255::real)\<rfloor> \<and> \<lfloor>clip x 0 1 * (255::real)\<rfloor> < 256"
proof -
  have "0 \<le> clip x 0 1 * (255::real)" "clip x 0 1 * (255::real) \<le> 255"
    using clip_range[of x] by simp_all
  then show ?thesis by (simp add: floor_less_iff)
qed

lemma color_max_100: "color_max = 100"
  by (simp add: color_max_def color_reference_def)

lemma clip_top: "color_max < v \<Longrightarrow> clip (v / color_max) 0 1 = 1"
  by (simp add: color_max_100 clip_def min_def max_def)

text \<open>
  Claim C5: for every field value \<open>v\<close> the worker's byte is
  \<open>clamp(v / color_reference, 0, 1) * 255\<close> with the fraction dropped, it is a valid
  index into the 256-entry table, and the pixel emitted is the table's entry at that index;
  every value strictly above the colour reference gets index 255, the table's top entry.
  Each work item before the sentinel yields its chunk index with the chunk coloured this way.
\<close>

theorem worker_normalizes_and_looks_up:
  assumes "length lut = 256"
  shows "chunk_normalized color_max v = word_of_int \<lfloor>clip (v / color_max) 0 1 * 255\<rfloor>
   \<and> unat (chunk_normalized color_max v) = nat \<lfloor>clip (v / color_max) 0 1 * 255\<rfloor>
   \<and> unat (chunk_normalized color_max v) < length lut
   \<and> (color_max < v \<longrightarrow> chunk_normalized color_max v = 255)
   \<and> rgb_chunk lut color_max coldata
        = map (\<lambda>v. lut ! nat \<lfloor>clip (v / color_max) 0 1 * 255\<rfloor>) coldata
   \<and> ((\<forall>v \<in> set coldata. color_max < v)
        \<longrightarrow> rgb_chunk lut color_max coldata = map (\<lambda>v. lut ! 255) coldata)
   \<and> worker calc_val lut color_max (Item i args # rest)
        = (i, rgb_chunk lut color_max (calc_val args)) # worker calc_val lut color_max rest"
proof -
  have n: "chunk_normalized color_max v = word_of_int \<lfloor>clip (v / color_max) 0 1 * 255\<rfloor>" for v
    by (simp only: chunk_normalized_def clip_scale)
  have u: "unat (chunk_normalized color_max v) = nat \<lfloor>clip (v / color_max) 0 1 * 255\<rfloor>" for v
    unfolding n using floor_byte[of "v / color_max"] by (simp add: byte_floor)
  have b: "unat (chunk_normalized color_max v) < length lut" for v
    unfolding u assms using floor_byte[of "v / color_max"] by linarith
  have t: "chunk_normalized color_max v = 255" if "color_max < v" for v
    unfolding n using clip_top[OF that] by simp
  have r: "rgb_chunk lut color_max coldata
        = map (\<lambda>v. lut ! nat \<lfloor>clip (v / color_max) 0 1 * 255\<rfloor>) coldata"
    by (simp add: rgb_chunk_def u)
  have rt: "rgb_chunk lut color_max coldata = map (\<lambda>v. lut ! 255) coldata"
    if "\<forall>v \<in> set coldata. color_max < v"
    using that by (simp add: rgb_chunk_def t)
  show ?thesis using n u b t r rt by simp
qed

theorem worker_normalizes_and_looks_up_witness:
  "length (replicate 256 (1 :: 8 word, 2 :: 8 word, 3 :: 8 word)) = 256
   \<and> color_max < 150
   \<and> chunk_normalized color_max 150 = 255
   \<and> color_max < 200
   \<and> rgb_chunk (replicate 256 (1, 2, 3)) color_max [150, 200] = [(1, 2, 3), (1, 2, 3)]
   \<and> chunk_normalized color_max 50 = 127
   \<and> unat (chunk_normalized color_max 50) < length (replicate 256 (1 :: 8 word, 2 :: 8 word, 3 :: 8 word))"
proof -
  have h: "length (replicate 256 (1 :: 8 word, 2 :: 8 word, 3 :: 8 word)) = 256" by simp
  have c1: "color_max < 150" and c3: "color_max < 200"
    and c2: "\<forall>v \<in> set [150, 200 :: real]. color_max < v"
    by (simp_all add: color_max_100)
  have f: "\<lfloor>clip (50 / color_max) 0 1 * 255\<rfloor> = 127"
    by (simp add: color_max_100 clip_def)
  note t1 = worker_normalizes_and_looks_up[OF h, of 150 "[150, 200]"]
  note t2 = worker_normalizes_and_looks_up[OF h, of 50]
  have top: "chunk_normalized color_max 150 = 255"
    by (rule t1[THEN conjunct2, THEN conjunct2, THEN conjunct2, THEN conjunct1, THEN mp, OF c1])
  have "rgb_chunk (replicate 256 (1, 2, 3)) color_max [150, 200]
          = map (\<lambda>v. replicate 256 (1 :: 8 word, 2 :: 8 word, 3 :: 8 word) ! 255) [150, 200 :: real]"
    by (rule t1[THEN conjunct2, THEN conjunct2, THEN conjunct2, THEN conjunct2, THEN conjunct2,
                THEN conjunct1, THEN mp, OF c2])
  then have chunk: "rgb_chunk (replicate 256 (1, 2, 3)) color_max [150, 200] = [(1, 2, 3), (1, 2, 3)]"
    by simp
  have mid: "chunk_normalized color_max 50 = 127"
    using t2[THEN conjunct1] by (simp only: f) simp
  have idx: "unat (chunk_normalized color_max 50) < length (replicate 256 (1 :: 8 word, 2 :: 8 word, 3 :: 8 word))"
    by (rule t2[THEN conjunct2, THEN conjunct2, THEN conjunct1])
  show ?thesis
    by (rule conjI[OF h conjI[OF c1 conjI[OF top conjI[OF c3 conjI[OF chunk conjI[OF mid idx]]]]]])
qed

section \<open>Properties of the checkpoint file\<close>

text \<open>
  Claim C2, as stated: at every point during a save, storage holds the complete previous
  record or the complete new one.  Saving strip 4 over the checkpoint of strip 3: after the
  removal there is no file, and after \<open>open\<close> there is an empty one; neither is the
  previous record nor the new one.
\<close>

theorem save_progress_leaves_no_record:
  "save_progress_states 4 4 30 (File (json_dump (progress_data 4 3 30))) ! 1 = Absent
   \<and> save_progress_states 4 4 30 (File (json_dump (progress_data 4 3 30))) ! 2 = File []
   \<and> Absent \<noteq> File (json_dump (progress_data 4 3 30))
   \<and> Absent \<noteq> File (json_dump (progress_data 4 4 30))
   \<and> File [] \<noteq> File (json_dump (progress_data 4 3 30))
   \<and> File [] \<noteq> File (json_dump (progress_data 4 4 30))"
  by (simp add: save_progress_states_def Let_def os_path_exists_def json_dump_def progress_data_def)

text \<open>
  Claim C2, amended: \<open>save_progress\<close> replaces the checkpoint by removing the file
  and writing a new one.  Whatever the file held before, the call leaves the complete new
  record, and on the way storage holds in turn the previous state, no file, an empty file and
  the new record.
\<close>

theorem save_progress_replaces:
  "save_progress im_scale current_strip total_strips f0
     = File (json_dump (progress_data im_scale current_strip total_strips))
   \<and> save_progress_states im_scale current_strip total_strips f0
     = [f0, Absent, File [], File (json_dump (progress_data im_scale current_strip total_strips))]"
  by (cases f0) (simp_all add: save_progress_def save_progress_states_def Let_def os_path_exists_def)

text \<open>
  Claim C7: \<open>load_progress\<close> never raises; it returns a record \<open>v\<close> exactly when
  the file is present and readable and its text parses to \<open>v\<close>; for an absent file, an
  unreadable one, or a text on which the parser raises, it returns \<open>None\<close>.
\<close>

theorem load_progress_never_raises:
  "(\<exists>r. load_progress json_load f = Inr r)
   \<and> (load_progress json_load f = Inr (Some v)
        \<longleftrightarrow> (\<exists>s. f = File s \<and> json_load s = Inr (Some v)))
   \<and> (f = Absent \<or> f = Unreadable \<or> (\<exists>s e. f = File s \<and> json_load s = Inl e)
        \<longrightarrow> load_progress json_load f = Inr None)"
  by (cases f) (auto simp: load_progress_def os_path_exists_def open_read_def split: sum.splits)

theorem load_progress_never_raises_witness:
  "(Unreadable = Absent \<or> Unreadable = Unreadable
      \<or> (\<exists>s e. Unreadable = File s \<and> (Inl JSONDecodeError :: exn + nat option) = Inl e))
   \<and> load_progress (\<lambda>s. Inl JSONDecodeError :: exn + nat option) Unreadable = Inr None
   \<and> load_progress (\<lambda>s. Inl JSONDecodeError :: exn + nat option) (File ''{'') = Inr None
   \<and> load_progress (\<lambda>s. Inr (Some (7::nat))) (File ''7'') = Inr (Some 7)"
  using load_progress_never_raises[of "\<lambda>s. Inl JSONDecodeError :: exn + nat option" Unreadable]
        load_progress_never_raises[of "\<lambda>s. Inl JSONDecodeError :: exn + nat option" "File ''{''"]
        load_progress_never_raises[of "\<lambda>s. Inr (Some (7::nat))" "File ''7''" 7]
  by simp

section \<open>Properties of the control channel\<close>

lemma lower_ctrl_c: "lower (CHR 0x03) = CHR 0x03"
  by (simp add: lower_def Let_def)

text \<open>
  Claim C8, as stated: after one exit command the process ends only on a second consecutive
  exit command or an interrupt.  The armed state outlives every key but pause: exit, save,
  exit ends the process although the two exit commands are not consecutive, and so does exit
  followed by an unbound key and exit.
\<close>

theorem exit_save_exit_terminates:
  "input_listener ''es'' initial_flags
     = Listening \<lparr>paused = 1, exit_confirm = 1, save_requested = 1\<rparr>
   \<and> input_listener ''ese'' initial_flags = Exited
   \<and> input_listener ''exe'' initial_flags = Exited"
  by code_simp

text \<open>
  Claim C8, amended: from a state that is not exit-armed, the exit key sets
  \<open>exit_confirm\<close> and \<open>paused\<close>; the pause key pressed next clears both and the
  listener goes on without ending the process.  A key press ends the process only if it is
  the exit key in the armed state or the interrupt character.  The armed state is entered
  only by the exit key and is left only by the pause key: every other key keeps it, so a
  second exit key ends the process whether it follows the first at once or after any keys
  other than pause.
\<close>

theorem exit_then_pause_cancels:
  assumes "lower e = CHR ''e''" "lower p = CHR ''p''" "exit_confirm f \<noteq> 1"
  shows "key_press e f = Listening (f\<lparr>exit_confirm := 1, paused := 1\<rparr>)
       \<and> input_listener [e, p] f = Listening (f\<lparr>exit_confirm := 0, paused := 0\<rparr>)
       \<and> input_listener (e # e # ks) f = Exited
       \<and> (\<forall>ch g. key_press ch g = Exited
             \<longleftrightarrow> (lower ch = CHR ''e'' \<and> exit_confirm g = 1) \<or> ch = CHR 0x03)
       \<and> (\<forall>ch g g'. key_press ch g = Listening g' \<and> exit_confirm g' = 1
             \<longrightarrow> lower ch = CHR ''e'' \<or> (exit_confirm g = 1 \<and> lower ch \<noteq> CHR ''p''))
       \<and> (\<forall>ch g. exit_confirm g = 1 \<and> lower ch \<noteq> CHR ''p'' \<and> lower ch \<noteq> CHR ''e''
                  \<and> ch \<noteq> CHR 0x03
             \<longrightarrow> (\<exists>g'. key_press ch g = Listening g' \<and> exit_confirm g' = 1))
       \<and> (\<forall>x. lower x \<noteq> CHR ''p'' \<longrightarrow> input_listener (e # x # e # ks) f = Exited)"
proof -
  let ?a = "f\<lparr>exit_confirm := 1, paused := 1\<rparr>"
  have arm: "key_press e f = Listening ?a"
    using assms by (simp add: key_press_def)
  have cancel: "key_press p ?a = Listening (f\<lparr>exit_confirm := 0, paused := 0\<rparr>)"
    using assms by (simp add: key_press_def)
  have quit: "key_press e g = Exited" if "exit_confirm g = 1" for g
    using assms that by (simp add: key_press_def)
  have only: "\<forall>ch g. key_press ch g = Exited
             \<longleftrightarrow> (lower ch = CHR ''e'' \<and> exit_confirm g = 1) \<or> ch = CHR 0x03"
    using lower_ctrl_c by (auto simp: key_press_def)
  have armed: "\<forall>ch g g'. key_press ch g = Listening g' \<and> exit_confirm g' = 1
             \<longrightarrow> lower ch = CHR ''e'' \<or> (exit_confirm g = 1 \<and> lower ch \<noteq> CHR ''p'')"
    by (auto simp: key_press_def split: if_splits)
  have stays: "\<forall>ch g. exit_confirm g = 1 \<and> lower ch \<noteq> CHR ''p'' \<and> lower ch \<noteq> CHR ''e''
                  \<and> ch \<noteq> CHR 0x03
             \<longrightarrow> (\<exists>g'. key_press ch g = Listening g' \<and> exit_confirm g' = 1)"
    by (auto simp: key_press_def)
  have two: "input_listener [e, p] f = Listening (f\<lparr>exit_confirm := 0, paused := 0\<rparr>)"
    by (simp add: arm cancel)
  have three: "input_listener (e # e # ks) f = Exited"
    by (simp add: arm quit)
  have between: "\<forall>x. lower x \<noteq> CHR ''p'' \<longrightarrow> input_listener (e # x # e # ks) f = Exited"
  proof (intro allI impI)
    fix x assume np: "lower x \<noteq> CHR ''p''"
    show "input_listener (e # x # e # ks) f = Exited"
    proof (cases "key_press x ?a")
      case Exited
      then show ?thesis by (simp add: arm)
    next
      case (Listening g')
      have "exit_confirm g' = 1"
        using Listening np by (auto simp: key_press_def split: if_splits)
      then show ?thesis using Listening by (simp add: arm quit)
    qed
  qed
  show ?thesis
    by (rule conjI[OF arm conjI[OF two conjI[OF three conjI[OF only conjI[OF armed
          conjI[OF stays between]]]]]])
qed

theorem exit_then_pause_cancels_witness:
  "lower (CHR ''e'') = CHR ''e'' \<and> lower (CHR ''p'') = CHR ''p'' \<and> exit_confirm initial_flags \<noteq> 1
   \<and> key_press (CHR ''e'') initial_flags = Listening (initial_flags\<lparr>exit_confirm := 1, paused := 1\<rparr>)
   \<and> input_listener ''ep'' initial_flags = Listening (initial_flags\<lparr>exit_confirm := 0, paused := 0\<rparr>)
   \<and> input_listener ''ee'' initial_flags = Exited
   \<and> lower (CHR ''s'') \<noteq> CHR ''p''
   \<and> input_listener ''ese'' initial_flags = Exited"
proof -
  have h: "lower (CHR ''e'') = CHR ''e''" "lower (CHR ''p'') = CHR ''p''"
          "exit_confirm initial_flags \<noteq> 1"
    by (simp_all add: lower_def Let_def initial_flags_def)
  have s: "lower (CHR ''s'') \<noteq> CHR ''p''"
    by (simp add: lower_def Let_def)
  note t = exit_then_pause_cancels[OF h, of "[]"]
  note between = t[THEN conjunct2, THEN conjunct2, THEN conjunct2, THEN conjunct2,
                   THEN conjunct2, THEN conjunct2, rule_format, OF s]
  show ?thesis
    by (intro conjI h s t[THEN conjunct1] t[THEN conjunct2, THEN conjunct1]
          t[THEN conjunct2, THEN conjunct2, THEN conjunct1] between)
qed

section \<open>Properties of the tiles directory setup\<close>

lemma str14: "str_int 14 = ''14''"
  by code_simp

text \<open>
  Claim C10: with start strip 0 the setup leaves an empty tiles directory, whatever was
  there.  With any other start strip the setup leaves the directory as it is, and the
  creation of the level directory that follows keeps every entry: a regular file is in the
  directory afterwards exactly when it was there before, with the same content.
\<close>

theorem tiles_dir_setup:
  "setup_tiles_dir 0 td = Some Map.empty
   \<and> (start_strip \<noteq> 0 \<longrightarrow> setup_tiles_dir start_strip td = td)
   \<and> (start_strip \<noteq> 0 \<and> make_level_dir max_level (setup_tiles_dir start_strip td) = Inr td'
        \<longrightarrow> (\<forall>p. entry_at td p \<noteq> None \<longrightarrow> entry_at td' p = entry_at td p)
          \<and> (\<forall>p c. entry_at td' p = Some (Regular c) \<longleftrightarrow> entry_at td p = Some (Regular c)))"
  by (auto simp: setup_tiles_dir_def os_makedirs_def shutil_rmtree_def make_level_dir_def
        entry_at_def Let_def split: option.splits entry.splits if_splits)

theorem tiles_dir_setup_witness:
  "(3::int) \<noteq> 0
   \<and> setup_tiles_dir 3 (Some [[''14''] \<mapsto> Directory, [''14'', ''0_29.png''] \<mapsto> Regular ''tile''])
       = Some [[''14''] \<mapsto> Directory, [''14'', ''0_29.png''] \<mapsto> Regular ''tile'']
   \<and> make_level_dir 14
        (setup_tiles_dir 3 (Some [[''14''] \<mapsto> Directory, [''14'', ''0_29.png''] \<mapsto> Regular ''tile'']))
       = Inr (Some [[''14''] \<mapsto> Directory, [''14'', ''0_29.png''] \<mapsto> Regular ''tile''])
   \<and> setup_tiles_dir 0 (Some [[''14''] \<mapsto> Directory, [''14'', ''0_29.png''] \<mapsto> Regular ''tile''])
       = Some Map.empty"
proof -
  let ?td = "Some [[''14''] \<mapsto> Directory, [''14'', ''0_29.png''] \<mapsto> Regular ''tile'']"
  have h: "(3::int) \<noteq> 0" by simp
  note t = tiles_dir_setup[of ?td 3 14 ?td]
  have s: "setup_tiles_dir 3 ?td = ?td"
    using t h by blast
  have m: "make_level_dir 14 (setup_tiles_dir 3 ?td) = Inr ?td"
    by (simp add: s make_level_dir_def os_makedirs_def Let_def str14)
  have f: "setup_tiles_dir 0 ?td = Some Map.empty"
    using t by blast
  show ?thesis using h s m f by simp
qed

section \<open>Properties of the strip pipeline\<close>

lemma chunk_loop_tiles:
  "chunk_loop n outq obs st = Collected st1 obs1 \<or> chunk_loop n outq obs st = ShouldSave st1
     \<Longrightarrow> tiles st1 = tiles st \<and> save_file st1 = save_file st"
proof (induction n arbitrary: outq obs st)
  case 0
  then show ?case by simp
next
  case (Suc n)
  show ?case
  proof (cases outq)
    case Nil
    with Suc.prems show ?thesis by simp
  next
    case (Cons p rest)
    obtain i rgb where p: "p = (i, rgb)" by (cases p)
    let ?st = "st\<lparr>chunk_files := (chunk_files st)(i \<mapsto> rgb)\<rparr>"
    show ?thesis
    proof (cases "wait_if_paused obs")
      case None
      with Suc.prems Cons p show ?thesis by simp
    next
      case (Some q)
      obtain b obs' where q: "q = (b, obs')" by (cases q)
      show ?thesis
      proof (cases b)
        case True
        with Suc.prems Cons p Some q have "st1 = ?st" by simp
        then show ?thesis by simp
      next
        case False
        with Suc.prems Cons p Some q
        have "chunk_loop n rest obs' ?st = Collected st1 obs1 \<or> chunk_loop n rest obs' ?st = ShouldSave st1"
          by simp
        from Suc.IH[OF this] show ?thesis by simp
      qed
    qed
  qed
qed

lemma assemble_strip_tiles:
  assumes "assemble_strip F S nx sph ml k st = Inr st2"
  shows "\<exists>buf. load_chunks [0 ..< nat (nc nx)] (chunk_files st) = Inr buf
           \<and> tiles st2 = fold (\<lambda>(tile_x_idx, tile_data). save_tile tile_data ml tile_x_idx (tile_row sph k))
                            (enumerate 0 (S (F buf) TILE_SIZE)) (tiles st)
           \<and> chunk_files st2 = remove_chunk_files (nat (nc nx)) (chunk_files st)
           \<and> save_file st2 = save_file st"
proof (cases "load_chunks [0 ..< nat (nc nx)] (chunk_files st)")
  case (Inl e)
  with assms show ?thesis by (simp add: assemble_strip_def)
next
  case (Inr buf)
  with assms have "st2 = st\<lparr>tiles := fold (\<lambda>(tile_x_idx, tile_data). save_tile tile_data ml tile_x_idx (tile_row sph k))
                            (enumerate 0 (S (F buf) TILE_SIZE)) (tiles st),
                       chunk_files := remove_chunk_files (nat (nc nx)) (chunk_files st)\<rparr>"
    by (simp add: assemble_strip_def Let_def)
  with Inr show ?thesis by simp
qed



lemma fold_save_tile:
  "fold (\<lambda>(tile_x_idx, tile_data). save_tile tile_data lvl tile_x_idx r) (enumerate n ts) m (l, c, r')
     = (if l = lvl \<and> r' = r \<and> n \<le> c \<and> c < n + length ts then Some (ts ! (c - n)) else m (l, c, r'))"
proof (induction ts arbitrary: n m)
  case Nil
  then show ?case by auto
next
  case (Cons t ts)
  have "fold (\<lambda>(tile_x_idx, tile_data). save_tile tile_data lvl tile_x_idx r) (enumerate n (t # ts)) m (l, c, r')
      = (if l = lvl \<and> r' = r \<and> Suc n \<le> c \<and> c < Suc n + length ts then Some (ts ! (c - Suc n))
         else save_tile t lvl n r m (l, c, r'))"
    by (simp add: Cons.IH)
  also have "\<dots> = (if l = lvl \<and> r' = r \<and> n \<le> c \<and> c < n + length (t # ts)
                     then Some ((t # ts) ! (c - n)) else m (l, c, r'))"
  proof (cases "c = n")
    case True
    then show ?thesis by (simp add: save_tile_def)
  next
    case False
    then show ?thesis by (auto simp: save_tile_def nth_Cons' Suc_diff_le)
  qed
  finally show ?case .
qed



lemma process_strip_save_final:
  assumes "chunk_loop (nat (nc nx)) outq obs st = Collected st1 (f1 # obs2)" "save_requested f1 = 1"
  shows "process_strip F S nx sc sph ml k outq obs st
           = (case assemble_strip F S nx sph ml k st1 of
                Inl e \<Rightarrow> Raised e
              | Inr st2 \<Rightarrow> Saved (st2\<lparr>save_file := save_progress sc (k + 1) sph (save_file st2)\<rparr>))"
  using assms by (simp add: process_strip_def)

lemma process_strip_normal:
  assumes "chunk_loop (nat (nc nx)) outq obs st = Collected st1 (f1 # f2 # f3 # f4 # obs5)"
    "save_requested f1 \<noteq> 1" "save_requested f3 = 0" "save_requested f4 \<noteq> 1"
    "wait_if_paused obs5 = Some (b, obs6)"
  shows "process_strip F S nx sc sph ml k outq obs st
           = (case assemble_strip F S nx sph ml k st1 of
                Inl e \<Rightarrow> Raised e
              | Inr st2 \<Rightarrow> Next st2 obs6)"
  using assms by (simp add: process_strip_def split: sum.splits)

lemma process_strip_tiles:
  assumes "process_strip F S nx sc sph ml k outq obs st = Saved st'
         \<or> process_strip F S nx sc sph ml k outq obs st = Next st' obs'"
  shows "tiles st' = tiles st
       \<or> (\<exists>st1 st2. tiles st1 = tiles st \<and> assemble_strip F S nx sph ml k st1 = Inr st2
                    \<and> tiles st' = tiles st2)"
proof (cases "chunk_loop (nat (nc nx)) outq obs st")
  case (Collected st1 obs1)
  then have t1: "tiles st1 = tiles st" using chunk_loop_tiles by blast
  show ?thesis
  proof (cases "assemble_strip F S nx sph ml k st1")
    case (Inl e)
    with assms Collected t1 show ?thesis
      by (auto simp: process_strip_def split: list.splits if_splits option.splits prod.splits)
  next
    case (Inr st2)
    with assms Collected have "tiles st' = tiles st1 \<or> tiles st' = tiles st2"
      by (auto simp: process_strip_def split: list.splits if_splits option.splits prod.splits)
    with t1 Inr show ?thesis by auto
  qed
next
  case (ShouldSave st1)
  then have "tiles st1 = tiles st" using chunk_loop_tiles by blast
  with assms ShouldSave show ?thesis by (auto simp: process_strip_def)
next
  case Stuck
  with assms show ?thesis by (simp add: process_strip_def)
qed

lemma assemble_strip_row:
  assumes "assemble_strip F S nx sph ml k st1 = Inr st2"
  shows "\<exists>buf. load_chunks [0 ..< nat (nc nx)] (chunk_files st1) = Inr buf
           \<and> (\<forall>c < length (S (F buf) TILE_SIZE).
                  tiles st2 (ml, c, sph - 1 - k) = Some (S (F buf) TILE_SIZE ! c))
           \<and> (\<forall>l c r. tiles st2 (l, c, r) \<noteq> tiles st1 (l, c, r) \<longrightarrow> l = ml \<and> r = sph - 1 - k)"
proof -
  from assemble_strip_tiles[OF assms] obtain buf where
    b: "load_chunks [0 ..< nat (nc nx)] (chunk_files st1) = Inr buf" and
    t: "tiles st2 = fold (\<lambda>(tile_x_idx, tile_data). save_tile tile_data ml tile_x_idx (tile_row sph k))
                            (enumerate 0 (S (F buf) TILE_SIZE)) (tiles st1)"
    by blast
  have "\<forall>c < length (S (F buf) TILE_SIZE).
                  tiles st2 (ml, c, sph - 1 - k) = Some (S (F buf) TILE_SIZE ! c)"
    by (simp add: t fold_save_tile tile_row_def)
  moreover have "\<forall>l c r. tiles st2 (l, c, r) \<noteq> tiles st1 (l, c, r) \<longrightarrow> l = ml \<and> r = sph - 1 - k"
    by (simp add: t fold_save_tile tile_row_def)
  ultimately show ?thesis using b by blast
qed

lemma process_strip_row:
  assumes "process_strip F S nx sc sph ml k outq obs st = Saved st'
         \<or> process_strip F S nx sc sph ml k outq obs st = Next st' obs'"
  shows "\<forall>l c r. tiles st' (l, c, r) \<noteq> tiles st (l, c, r) \<longrightarrow> l = ml \<and> r = sph - 1 - k"
proof -
  from process_strip_tiles[OF assms] show ?thesis
  proof
    assume "tiles st' = tiles st"
    then show ?thesis by simp
  next
    assume "\<exists>st1 st2. tiles st1 = tiles st \<and> assemble_strip F S nx sph ml k st1 = Inr st2
                    \<and> tiles st' = tiles st2"
    then obtain st1 st2 where a: "tiles st1 = tiles st" "assemble_strip F S nx sph ml k st1 = Inr st2"
        "tiles st' = tiles st2" by blast
    from assemble_strip_row[OF a(2)] a(1) a(3) show ?thesis by auto
  qed
qed

lemma save_progress_eq:
  "save_progress sc k sph f0 = File (json_dump (progress_data sc k sph))"
  by (simp add: save_progress_def save_progress_states_def Let_def)


lemma chunk_loop_numeral:
  "chunk_loop (numeral m) ((i, rgb) # outq) obs st =
     (case wait_if_paused obs of
        None \<Rightarrow> Stuck
      | Some (should_save, obs') \<Rightarrow>
          if should_save then ShouldSave (st\<lparr>chunk_files := (chunk_files st)(i \<mapsto> rgb)\<rparr>)
          else chunk_loop (pred_numeral m) outq obs' (st\<lparr>chunk_files := (chunk_files st)(i \<mapsto> rgb)\<rparr>))"
  by (simp add: numeral_eq_Suc Let_def)



lemma nc_100: "nat (nc 100) = 2"
  by (simp add: nc_def fx_def ncol_def)

lemma upt_2: "[0 ..< 2] = [0, 1]"
  by (simp add: upt_rec)

text \<open>
  Claim C6: the row of the tiles of strip \<open>k\<close> is \<open>strips_per_height - 1 - k\<close>, which
  is \<open>strips_per_height - 1\<close> for strip 0 and a valid row for every strip index.  Assembling
  a strip stores tile \<open>c\<close> of the split strip under (\<open>max_level\<close>, \<open>c\<close>, that row) and
  changes no tile of another level or row.  Both the branch that finishes the strip for a
  save and the normal completion assemble the strip this way, and whatever way an iteration
  of the strip loop ends, the tiles it changed are in that row of level \<open>max_level\<close>.
\<close>

theorem base_tiles_row:
  "tile_row sph k = sph - 1 - k
   \<and> tile_row sph 0 = sph - 1
   \<and> (0 \<le> k \<and> k < sph \<longrightarrow> 0 \<le> tile_row sph k \<and> tile_row sph k < sph)
   \<and> (assemble_strip F S nx sph ml k st1 = Inr st2 \<longrightarrow>
        (\<exists>buf. load_chunks [0 ..< nat (nc nx)] (chunk_files st1) = Inr buf
           \<and> (\<forall>c < length (S (F buf) TILE_SIZE).
                  tiles st2 (ml, c, sph - 1 - k) = Some (S (F buf) TILE_SIZE ! c))
           \<and> (\<forall>l c r. tiles st2 (l, c, r) \<noteq> tiles st1 (l, c, r) \<longrightarrow> l = ml \<and> r = sph - 1 - k)))
   \<and> (chunk_loop (nat (nc nx)) outq obs st = Collected st1 (f1 # obs2) \<and> save_requested f1 = 1 \<longrightarrow>
        process_strip F S nx sc sph ml k outq obs st
          = (case assemble_strip F S nx sph ml k st1 of
               Inl e \<Rightarrow> Raised e
             | Inr st2 \<Rightarrow> Saved (st2\<lparr>save_file := save_progress sc (k + 1) sph (save_file st2)\<rparr>)))
   \<and> (chunk_loop (nat (nc nx)) outq obs st = Collected st1 (f1 # f2 # f3 # f4 # obs5)
        \<and> save_requested f1 \<noteq> 1 \<and> save_requested f3 = 0 \<and> save_requested f4 \<noteq> 1
        \<and> wait_if_paused obs5 = Some (b, obs6) \<longrightarrow>
        process_strip F S nx sc sph ml k outq obs st
          = (case assemble_strip F S nx sph ml k st1 of
               Inl e \<Rightarrow> Raised e
             | Inr st2 \<Rightarrow> Next st2 obs6))
   \<and> (process_strip F S nx sc sph ml k outq obs st = Saved st'
        \<or> process_strip F S nx sc sph ml k outq obs st = Next st' obs' \<longrightarrow>
        (\<forall>l c r. tiles st' (l, c, r) \<noteq> tiles st (l, c, r) \<longrightarrow> l = ml \<and> r = sph - 1 - k))"
proof -
  have c1: "tile_row sph k = sph - 1 - k" and c2: "tile_row sph 0 = sph - 1"
    by (simp_all add: tile_row_def)
  have c3: "0 \<le> k \<and> k < sph \<longrightarrow> 0 \<le> tile_row sph k \<and> tile_row sph k < sph"
    by (simp add: tile_row_def)
  have c4: "assemble_strip F S nx sph ml k st1 = Inr st2 \<longrightarrow>
        (\<exists>buf. load_chunks [0 ..< nat (nc nx)] (chunk_files st1) = Inr buf
           \<and> (\<forall>c < length (S (F buf) TILE_SIZE).
                  tiles st2 (ml, c, sph - 1 - k) = Some (S (F buf) TILE_SIZE ! c))
           \<and> (\<forall>l c r. tiles st2 (l, c, r) \<noteq> tiles st1 (l, c, r) \<longrightarrow> l = ml \<and> r = sph - 1 - k))"
    using assemble_strip_row[of F S nx sph ml k st1 st2] by (rule impI)
  have c5: "chunk_loop (nat (nc nx)) outq obs st = Collected st1 (f1 # obs2) \<and> save_requested f1 = 1 \<longrightarrow>
        process_strip F S nx sc sph ml k outq obs st
          = (case assemble_strip F S nx sph ml k st1 of
               Inl e \<Rightarrow> Raised e
             | Inr st2 \<Rightarrow> Saved (st2\<lparr>save_file := save_progress sc (k + 1) sph (save_file st2)\<rparr>))"
  proof
    assume h: "chunk_loop (nat (nc nx)) outq obs st = Collected st1 (f1 # obs2) \<and> save_requested f1 = 1"
    show "process_strip F S nx sc sph ml k outq obs st
          = (case assemble_strip F S nx sph ml k st1 of
               Inl e \<Rightarrow> Raised e
             | Inr st2 \<Rightarrow> Saved (st2\<lparr>save_file := save_progress sc (k + 1) sph (save_file st2)\<rparr>))"
      by (rule process_strip_save_final[OF conjunct1[OF h] conjunct2[OF h]])
  qed
  have c6: "chunk_loop (nat (nc nx)) outq obs st = Collected st1 (f1 # f2 # f3 # f4 # obs5)
        \<and> save_requested f1 \<noteq> 1 \<and> save_requested f3 = 0 \<and> save_requested f4 \<noteq> 1
        \<and> wait_if_paused obs5 = Some (b, obs6) \<longrightarrow>
        process_strip F S nx sc sph ml k outq obs st
          = (case assemble_strip F S nx sph ml k st1 of
               Inl e \<Rightarrow> Raised e
             | Inr st2 \<Rightarrow> Next st2 obs6)"
  proof
    assume h: "chunk_loop (nat (nc nx)) outq obs st = Collected st1 (f1 # f2 # f3 # f4 # obs5)
        \<and> save_requested f1 \<noteq> 1 \<and> save_requested f3 = 0 \<and> save_requested f4 \<noteq> 1
        \<and> wait_if_paused obs5 = Some (b, obs6)"
    then have h1: "chunk_loop (nat (nc nx)) outq obs st = Collected st1 (f1 # f2 # f3 # f4 # obs5)"
      and h2: "save_requested f1 \<noteq> 1" and h3: "save_requested f3 = 0"
      and h4: "save_requested f4 \<noteq> 1" and h5: "wait_if_paused obs5 = Some (b, obs6)"
      by simp_all
    show "process_strip F S nx sc sph ml k outq obs st
          = (case assemble_strip F S nx sph ml k st1 of
               Inl e \<Rightarrow> Raised e
             | Inr st2 \<Rightarrow> Next st2 obs6)"
      by (rule process_strip_normal[OF h1 h2 h3 h4 h5])
  qed
  have c7: "process_strip F S nx sc sph ml k outq obs st = Saved st'
        \<or> process_strip F S nx sc sph ml k outq obs st = Next st' obs' \<longrightarrow>
        (\<forall>l c r. tiles st' (l, c, r) \<noteq> tiles st (l, c, r) \<longrightarrow> l = ml \<and> r = sph - 1 - k)"
    using process_strip_row[of F S nx sc sph ml k outq obs st st' obs'] by (rule impI)
  show ?thesis
    by (rule conjI[OF c1 conjI[OF c2 conjI[OF c3 conjI[OF c4 conjI[OF c5 conjI[OF c6 c7]]]]]])
qed

theorem base_tiles_row_witness:
  "((0::int) \<le> 0 \<and> (0::int) < 3)
   \<and> (0 \<le> tile_row 3 0 \<and> tile_row 3 0 < 3)
   \<and> tile_row 3 0 = 2
   \<and> process_strip rev (\<lambda>buf size. buf) 100 1 3 7 0 [(1, ''c1''), (0, ''c0'')]
        [initial_flags, initial_flags, initial_flags, initial_flags, initial_flags,
         initial_flags, initial_flags]
        \<lparr>chunk_files = Map.empty, tiles = Map.empty, save_file = Absent\<rparr>
       = Next \<lparr>chunk_files = remove_chunk_files 2 [1 \<mapsto> ''c1'', 0 \<mapsto> ''c0''],
               tiles = [(7, 0, 2) \<mapsto> ''c1'', (7, 1, 2) \<mapsto> ''c0''],
               save_file = Absent\<rparr> []
   \<and> process_strip rev (\<lambda>buf size. buf) 100 1 3 7 0 [(1, ''c1''), (0, ''c0'')]
        [initial_flags, initial_flags, \<lparr>paused = 0, exit_confirm = 0, save_requested = 1\<rparr>]
        \<lparr>chunk_files = Map.empty, tiles = Map.empty, save_file = Absent\<rparr>
       = Saved \<lparr>chunk_files = remove_chunk_files 2 [1 \<mapsto> ''c1'', 0 \<mapsto> ''c0''],
               tiles = [(7, 0, 2) \<mapsto> ''c1'', (7, 1, 2) \<mapsto> ''c0''],
               save_file = File (json_dump (progress_data 1 1 3))\<rparr>"
proof -
  let ?st0 = "\<lparr>chunk_files = Map.empty, tiles = Map.empty, save_file = Absent\<rparr> :: (string, string) storage"
  let ?st1 = "\<lparr>chunk_files = [1 \<mapsto> ''c1'', 0 \<mapsto> ''c0''], tiles = Map.empty, save_file = Absent\<rparr>
                :: (string, string) storage"
  let ?s = "\<lparr>paused = 0, exit_confirm = 0, save_requested = 1\<rparr>"
  let ?g = "initial_flags"
  let ?outq = "[(1, ''c1''), (0, ''c0'')]"
  have k: "(0::int) \<le> 0 \<and> (0::int) < 3" by simp
  note tn = base_tiles_row[where sph = 3 and k = 0 and F = rev and S = "\<lambda>buf size. buf"
      and nx = 100 and sc = 1 and ml = 7 and outq = ?outq
      and obs = "[?g, ?g, ?g, ?g, ?g, ?g, ?g]" and st = ?st0 and ?st1.0 = ?st1
      and ?f1.0 = ?g and ?f2.0 = ?g and ?f3.0 = ?g and ?f4.0 = ?g and ?obs5.0 = "[?g]"
      and b = False and ?obs6.0 = "[]"]
  note ts = base_tiles_row[where sph = 3 and k = 0 and F = rev and S = "\<lambda>buf size. buf"
      and nx = 100 and sc = 1 and ml = 7 and outq = ?outq
      and obs = "[?g, ?g, ?s]" and st = ?st0 and ?st1.0 = ?st1
      and ?f1.0 = ?s and ?obs2.0 = "[]"]
  have row: "0 \<le> tile_row 3 0 \<and> tile_row 3 0 < 3"
    by (rule tn[THEN conjunct2, THEN conjunct2, THEN conjunct1, THEN mp, OF k])
  have row2: "tile_row 3 0 = 2"
    using tn[THEN conjunct1] by simp
  have hn: "chunk_loop (nat (nc 100)) ?outq [?g, ?g, ?g, ?g, ?g, ?g, ?g] ?st0
              = Collected ?st1 [?g, ?g, ?g, ?g, ?g]
        \<and> save_requested ?g \<noteq> 1 \<and> save_requested ?g = 0 \<and> save_requested ?g \<noteq> 1
        \<and> wait_if_paused [?g] = Some (False, [])"
    by (simp add: nc_100 chunk_loop_numeral initial_flags_def)
  have hs: "chunk_loop (nat (nc 100)) ?outq [?g, ?g, ?s] ?st0 = Collected ?st1 [?s]
        \<and> save_requested ?s = 1"
    by (simp add: nc_100 chunk_loop_numeral initial_flags_def)
  have asm: "assemble_strip rev (\<lambda>buf size. buf) 100 3 7 0 ?st1
      = Inr \<lparr>chunk_files = remove_chunk_files 2 [1 \<mapsto> ''c1'', 0 \<mapsto> ''c0''],
               tiles = [(7, 0, 2) \<mapsto> ''c1'', (7, 1, 2) \<mapsto> ''c0''],
               save_file = Absent\<rparr>"
    by (simp add: assemble_strip_def nc_100 upt_2 Let_def tile_row_def save_tile_def)
  have runN: "process_strip rev (\<lambda>buf size. buf) 100 1 3 7 0 ?outq [?g, ?g, ?g, ?g, ?g, ?g, ?g] ?st0
       = Next \<lparr>chunk_files = remove_chunk_files 2 [1 \<mapsto> ''c1'', 0 \<mapsto> ''c0''],
               tiles = [(7, 0, 2) \<mapsto> ''c1'', (7, 1, 2) \<mapsto> ''c0''],
               save_file = Absent\<rparr> []"
    using tn[THEN conjunct2, THEN conjunct2, THEN conjunct2, THEN conjunct2, THEN conjunct2,
             THEN conjunct1, THEN mp, OF hn, unfolded asm]
    by simp
  have runS: "process_strip rev (\<lambda>buf size. buf) 100 1 3 7 0 ?outq [?g, ?g, ?s] ?st0
       = Saved \<lparr>chunk_files = remove_chunk_files 2 [1 \<mapsto> ''c1'', 0 \<mapsto> ''c0''],
               tiles = [(7, 0, 2) \<mapsto> ''c1'', (7, 1, 2) \<mapsto> ''c0''],
               save_file = File (json_dump (progress_data 1 1 3))\<rparr>"
    using ts[THEN conjunct2, THEN conjunct2, THEN conjunct2, THEN conjunct2,
             THEN conjunct1, THEN mp, OF hs, unfolded asm]
    by (simp add: save_progress_eq)
  show ?thesis
    by (rule conjI[OF k conjI[OF row conjI[OF row2 conjI[OF runN runS]]]])
qed




end
